theory Spec2Isabelle
  imports Complex_Main "HOL-Library.Signed_Division" "HOL-Library.Word"
begin

section \<open>Arbitrary-precision decimals used by the trigger functions\<close>

text \<open>
  The trigger functions of \<^verbatim>\<open>core/store/models/triggerfns/trigger_fns.go\<close> compute on
  \<^verbatim>\<open>decimal.Decimal\<close> of the dependency \<^verbatim>\<open>github.com/shopspring/decimal\<close>. A
  \<^verbatim>\<open>Decimal\<close> is the struct \<^verbatim>\<open>{value *big.Int; exp int32}\<close> and denotes
  \<open>value * 10 ^ exp\<close>. The operations below follow the library method by method. The
  exponent is taken as an unbounded integer: decimals on which the library's \<^verbatim>\<open>int32\<close>
  exponent arithmetic would overflow are outside the model.
\<close>

record decimal =
  dvalue :: int
  dexp :: int

text \<open>The rational number a decimal denotes.\<close>

definition val :: "decimal \<Rightarrow> rat" where
  "val d = of_int (dvalue d) * 10 powi (dexp d)"

text \<open>\<^verbatim>\<open>decimal.New(value, exp)\<close>.\<close>

definition New :: "int \<Rightarrow> int \<Rightarrow> decimal" where
  "New v e = \<lparr>dvalue = v, dexp = e\<rparr>"

text \<open>
  \<^verbatim>\<open>d.rescale(exp)\<close>: the same number at another exponent; going to a larger exponent
  divides the coefficient with \<^verbatim>\<open>big.Int.Quo\<close>, which truncates towards zero.
\<close>

definition rescale :: "decimal \<Rightarrow> int \<Rightarrow> decimal" where
  "rescale d e =
     (if dexp d = e then d
      else if dexp d < e then \<lparr>dvalue = dvalue d sdiv 10 ^ nat (e - dexp d), dexp = e\<rparr>
      else \<lparr>dvalue = dvalue d * 10 ^ nat (dexp d - e), dexp = e\<rparr>)"

definition RescalePair :: "decimal \<Rightarrow> decimal \<Rightarrow> decimal \<times> decimal" where
  "RescalePair d1 d2 =
     (if dexp d1 = dexp d2 then (d1, d2)
      else let baseScale = min (dexp d1) (dexp d2)
           in if baseScale \<noteq> dexp d1 then (rescale d1 baseScale, d2)
              else (d1, rescale d2 baseScale))"

definition Add :: "decimal \<Rightarrow> decimal \<Rightarrow> decimal" where
  "Add d d2 = (case RescalePair d d2 of (rd, rd2) \<Rightarrow>
     \<lparr>dvalue = dvalue rd + dvalue rd2, dexp = dexp rd\<rparr>)"

definition Sub :: "decimal \<Rightarrow> decimal \<Rightarrow> decimal" where
  "Sub d d2 = (case RescalePair d d2 of (rd, rd2) \<Rightarrow>
     \<lparr>dvalue = dvalue rd - dvalue rd2, dexp = dexp rd\<rparr>)"

definition Abs :: "decimal \<Rightarrow> decimal" where
  "Abs d = \<lparr>dvalue = \<bar>dvalue d\<bar>, dexp = dexp d\<rparr>"

text \<open>\<^verbatim>\<open>d.Sign()\<close>: -1, 0 or 1, the sign of the coefficient.\<close>

definition Sign :: "decimal \<Rightarrow> int" where
  "Sign d = sgn (dvalue d)"

text \<open>\<^verbatim>\<open>big.Int.Cmp\<close> and \<^verbatim>\<open>d.Cmp(d2)\<close>: -1, 0 or 1.\<close>

definition int_Cmp :: "int \<Rightarrow> int \<Rightarrow> int" where
  "int_Cmp x y = (if x < y then - 1 else if x = y then 0 else 1)"

definition Cmp :: "decimal \<Rightarrow> decimal \<Rightarrow> int" where
  "Cmp d d2 =
     (if dexp d = dexp d2 then int_Cmp (dvalue d) (dvalue d2)
      else case RescalePair d d2 of (rd, rd2) \<Rightarrow> int_Cmp (dvalue rd) (dvalue rd2))"

definition LessThan :: "decimal \<Rightarrow> decimal \<Rightarrow> bool" where
  "LessThan d d2 = (Cmp d d2 = - 1)"

text \<open>
  A \<^verbatim>\<open>float64\<close> is its IEEE 754 bit pattern: the sign bit, the 11 bits of the exponent
  field and the 52 bits of the fraction field. The exponent field 2047 holds the
  infinities (fraction 0) and the NaNs (\<^verbatim>\<open>math.IsInf(f, 0)\<close>, \<^verbatim>\<open>math.IsNaN(f)\<close>); every
  other pattern is a finite number, \<open>mant * 2 ^ exp2\<close> with the sign, where the exponent
  field 0 holds the subnormal numbers and the zeros.
\<close>

datatype float64 = Float64 (signbit: bool) (expbits: "11 word") (fracbits: "52 word")

definition IsNaN :: "float64 \<Rightarrow> bool" where
  "IsNaN f \<longleftrightarrow> unat (expbits f) = 2047 \<and> fracbits f \<noteq> 0"

definition IsInf :: "float64 \<Rightarrow> bool" where
  "IsInf f \<longleftrightarrow> unat (expbits f) = 2047 \<and> fracbits f = 0"

definition mant :: "float64 \<Rightarrow> int" where
  "mant f = (if expbits f = 0 then uint (fracbits f) else 2 ^ 52 + uint (fracbits f))"

definition exp2 :: "float64 \<Rightarrow> int" where
  "exp2 f = (if expbits f = 0 then 1 else uint (expbits f)) - 1023 - 52"

text \<open>The number a finite float holds, and the weight of the last bit of its mantissa.\<close>

definition fval :: "float64 \<Rightarrow> rat" where
  "fval f = (if signbit f then - 1 else 1) * of_int (mant f) * 2 powi exp2 f"

definition ulp :: "float64 \<Rightarrow> rat" where
  "ulp f = 2 powi exp2 f"

text \<open>
  The library panics in two places that the trigger functions reach: division by a zero
  divisor (\<^verbatim>\<open>panic("decimal division by 0")\<close>) and the conversion of a float that is
  not a number or not finite (\<^verbatim>\<open>panic(fmt.Sprintf("Cannot create a Decimal from %v", val))\<close>).
  A panic is the \<open>Inl\<close> of the result.
\<close>

datatype panic = DivisionByZero | CannotCreateDecimalFrom float64

text \<open>
  \<^verbatim>\<open>d.QuoRem(d2, precision)\<close>: quotient \<open>q\<close>, an integer multiple of
  \<open>10 ^ (- precision)\<close>, and remainder \<open>r\<close> with \<open>d = d2 * q + r\<close>; the integer
  division is \<^verbatim>\<open>big.Int.QuoRem\<close>, truncating towards zero.
\<close>

definition QuoRem :: "decimal \<Rightarrow> decimal \<Rightarrow> int \<Rightarrow> panic + decimal \<times> decimal" where
  "QuoRem d d2 precision =
     (if dvalue d2 = 0 then Inl DivisionByZero
      else
        let scale = - precision;
            e = dexp d - dexp d2 - scale;
            (aa, bb, scalerest) =
              (if e < 0 then (dvalue d, dvalue d2 * 10 ^ nat (- e), dexp d)
               else (dvalue d * 10 ^ nat e, dvalue d2, scale + dexp d2))
        in Inr (\<lparr>dvalue = aa sdiv bb, dexp = scale\<rparr>, \<lparr>dvalue = aa smod bb, dexp = scalerest\<rparr>))"

text \<open>
  \<^verbatim>\<open>d.DivRound(d2, precision)\<close>. The library documents it so: "DivRound divides and
  rounds to a given precision, i.e. to an integer multiple of 10^(-precision); for a
  positive quotient digit 5 is rounded up, away from 0; if the quotient is negative then
  digit 5 is rounded down, away from 0". It compares twice the remainder with the divisor
  and moves the truncated quotient one unit away from zero when the remainder is at
  least half the divisor.
\<close>

definition DivRound :: "decimal \<Rightarrow> decimal \<Rightarrow> int \<Rightarrow> panic + decimal" where
  "DivRound d d2 precision =
     (case QuoRem d d2 precision of
        Inl p \<Rightarrow> Inl p
      | Inr (q, r) \<Rightarrow>
          let rv2 = \<bar>dvalue r\<bar> * 2;
              r2 = \<lparr>dvalue = rv2, dexp = dexp r + precision\<rparr>;
              c = Cmp r2 (Abs d2)
          in if c < 0 then Inr q
             else if sgn (dvalue d) * sgn (dvalue d2) < 0 then Inr (Sub q (New 1 (- precision)))
             else Inr (Add q (New 1 (- precision))))"

text \<open>
  \<^verbatim>\<open>decimal.DivisionPrecision\<close>, "the number of decimal places in the result when it
  doesn't divide exactly", which the library sets to 16 and the trigger functions
  leave as it is; and \<^verbatim>\<open>d.Div(d2)\<close>: "Div returns d / d2. If it doesn't divide exactly, the
  result will have DivisionPrecision digits after the decimal point."
\<close>

definition DivisionPrecision :: int where
  "DivisionPrecision = 16"

definition Div :: "decimal \<Rightarrow> decimal \<Rightarrow> panic + decimal" where
  "Div d d2 = DivRound d d2 DivisionPrecision"

text \<open>
  \<^verbatim>\<open>decimal.NewFromFloat(value)\<close>: "NewFromFloat converts a float64 to Decimal. The
  converted number will contain the number of significant digits that can be represented
  in a float with reliable roundtrip. [...] NOTE: this will panic on NaN, +/-inf". The
  library takes the exact decimal expansion \<open>d\<close> of the float and the two bounds
  \<open>lower\<close> and \<open>upper\<close>, halfway to the neighbouring floats, between which every number
  reads back as the same float (the bounds themselves do when the mantissa is even,
  \<open>inclusive\<close>), and shortens \<open>d\<close> in its \<^verbatim>\<open>roundShortest\<close>: walking the decimal positions
  from the most significant one, it stops at the first position where cutting \<open>d\<close> off
  there (\<open>down\<close>) or cutting it off and adding one unit of that position (\<open>up\<close>) stays
  within the bounds, and takes the nearer of the two, by halves to even, when both do.
  Rounding up is tried only while \<open>d\<close> and \<open>upper\<close> agree on all digits before the
  position.

  Here the three numbers are integers: they are counted in the unit \<open>2 ^ (exp2 - 2)\<close>, a
  quarter of the weight of the last mantissa bit, which is multiplied by a power of ten
  when it is not an integer. A position \<open>p\<close> is the digit of weight \<open>10 ^ p\<close>.
\<close>

definition inclusive :: "float64 \<Rightarrow> bool" where
  "inclusive f \<longleftrightarrow> even (mant f)"

definition lower4 :: "float64 \<Rightarrow> int" where
  "lower4 f =
     (if 2 ^ 52 < mant f \<or> uint (expbits f) \<le> 1 then 4 * mant f - 2 else 4 * mant f - 1)"

definition upper4 :: "float64 \<Rightarrow> int" where
  "upper4 f = 4 * mant f + 2"

function roundShortest :: "bool \<Rightarrow> int \<Rightarrow> int \<Rightarrow> int \<Rightarrow> nat \<Rightarrow> int" where
  "roundShortest incl lower d upper p =
     (let down = d div 10 ^ p * 10 ^ p;
          up = down + 10 ^ p;
          okdown = (lower < down \<or> incl \<and> lower = down);
          okup = (d div 10 ^ (p + 1) = upper div 10 ^ (p + 1) \<and>
                  (up < upper \<or> incl \<and> up = upper))
      in if okdown \<and> okup then
           (if 2 * (d - down) < 10 ^ p then down
            else if 10 ^ p < 2 * (d - down) then up
            else if even (d div 10 ^ p) then down else up)
         else if okdown then down
         else if okup then up
         else if p = 0 then d
         else roundShortest incl lower d upper (p - 1))"
  by pat_completeness auto
termination by (relation "measure (\<lambda>(incl, lower, d, upper, p). p)") auto

declare roundShortest.simps [simp del]

text \<open>The number of decimal digits of a positive integer.\<close>

function digits :: "int \<Rightarrow> nat" where
  "digits n = (if n < 10 then 1 else Suc (digits (n div 10)))"
  by pat_completeness auto
termination by (relation "measure nat") auto

declare digits.simps [simp del]

text \<open>
  The digits that are left become the coefficient, without trailing zeros, and their
  position the exponent (\<^verbatim>\<open>Decimal{value: ..., exp: int32(d.dp) - int32(d.nd)}\<close>).
\<close>

function trim :: "int \<Rightarrow> int \<Rightarrow> decimal" where
  "trim v e = (if v \<noteq> 0 \<and> v mod 10 = 0 then trim (v div 10) (e + 1) else New v e)"
  by pat_completeness auto
termination by (relation "measure (\<lambda>(v, e). nat \<bar>v\<bar>)") auto

declare trim.simps [simp del]

definition NewFromFloat :: "float64 \<Rightarrow> panic + decimal" where
  "NewFromFloat f =
     (if expbits f = 0 \<and> fracbits f = 0 then Inr (New 0 0)
      else if IsNaN f \<or> IsInf f then Inl (CannotCreateDecimalFrom f)
      else
        let k = exp2 f - 2;
            c = (if 0 \<le> k then 2 ^ nat k else 5 ^ nat (- k));
            s = (if 0 \<le> k then 0 else - k);
            r = roundShortest (inclusive f) (lower4 f * c) (4 * mant f * c) (upper4 f * c)
                  (digits (upper4 f * c) - 1)
        in Inr (trim (if signbit f then - r else r) (- s)))"

text \<open>
  Rounding to the nearest integer, a half away from zero, and to sixteen decimal places:
  what the library documents for \<^verbatim>\<open>DivRound\<close> and \<^verbatim>\<open>Div\<close>.
\<close>

definition round_half_away :: "rat \<Rightarrow> int" where
  "round_half_away x = (if x < 0 then - \<lfloor>\<bar>x\<bar> + 1 / 2\<rfloor> else \<lfloor>\<bar>x\<bar> + 1 / 2\<rfloor>)"

definition round16 :: "rat \<Rightarrow> rat" where
  "round16 x = of_int (round_half_away (x * 10 ^ 16)) / 10 ^ 16"

section \<open>Trigger functions (trigger\_fns.go)\<close>

text \<open>Values of \<^verbatim>\<open>interface{}\<close> as they come out of a decoded JSON document.\<close>

datatype iface =
  IFloat64 float64
  | IString string
  | IBool bool
  | INil
  | IArray "iface list"
  | IMap "(string \<times> iface) list"

text \<open>The errors the package constructs, one constructor for each call site.\<close>

datatype error =
  UnknownTriggerFn string
  | WhileParsingParameters error string
  | WhileDeserializing error string iface
  | ExpectedFloatParameter iface
  | WhileParsingMap error
  | NotAJSONObject
  | CouldNotReadMap error
  | JSONError string

text \<open>
  \<^verbatim>\<open>floatTriggerFn\<close>, the only implementation of the interface \<^verbatim>\<open>TriggerFn\<close>. A nil
  interface value is \<open>None\<close>.
\<close>

record floatTriggerFn =
  triggering :: "decimal \<Rightarrow> decimal \<Rightarrow> iface list \<Rightarrow> panic + bool \<times> error option"
  factory :: string
  parameters :: float64

type_synonym TriggerFn = floatTriggerFn

definition Triggering ::
  "TriggerFn \<Rightarrow> decimal \<Rightarrow> decimal \<Rightarrow> iface list \<Rightarrow> panic + bool \<times> error option" where
  "Triggering t current new extraData = triggering t current new extraData"

definition Parameters :: "TriggerFn \<Rightarrow> iface" where
  "Parameters t = IFloat64 (parameters t)"

definition Factory :: "TriggerFn \<Rightarrow> string" where
  "Factory t = factory t"

text \<open>
  The two factories. Each takes the parameter as a \<^verbatim>\<open>float64\<close>, converts it with
  \<^verbatim>\<open>decimal.NewFromFloat\<close> before it builds the closure, and so panics, making no
  trigger function, when the conversion does.
\<close>

definition relativeThresholdFactory :: "iface \<Rightarrow> panic + TriggerFn option \<times> error option" where
  "relativeThresholdFactory params =
     (case params of
        IFloat64 threshold \<Rightarrow>
          (case NewFromFloat threshold of
             Inl p \<Rightarrow> Inl p
           | Inr dthreshold \<Rightarrow>
               Inr (Some \<lparr>triggering = (\<lambda>current new extraData.
                            if Sign current \<noteq> 0 then
                              (case Div (Sub current new) current of
                                 Inl p \<Rightarrow> Inl p
                               | Inr q \<Rightarrow> Inr (\<not> LessThan (Abs q) dthreshold, None))
                            else Inr (Sign new \<noteq> 0, None)),
                          factory = ''relativeThreshold'',
                          parameters = threshold\<rparr>, None))
      | _ \<Rightarrow> Inr (None, Some (ExpectedFloatParameter params)))"

definition absoluteThresholdFactory :: "iface \<Rightarrow> panic + TriggerFn option \<times> error option" where
  "absoluteThresholdFactory params =
     (case params of
        IFloat64 threshold \<Rightarrow>
          (case NewFromFloat threshold of
             Inl p \<Rightarrow> Inl p
           | Inr dthreshold \<Rightarrow>
               Inr (Some \<lparr>triggering = (\<lambda>current new extraData.
                            Inr (\<not> LessThan (Abs (Sub current new)) dthreshold, None)),
                          factory = ''absoluteThreshold'',
                          parameters = threshold\<rparr>, None))
      | _ \<Rightarrow> Inr (None, Some (ExpectedFloatParameter params)))"
text \<open>
  \<^verbatim>\<open>triggerFnFactories\<close>: the registry, a Go map from the name used in a job spec to the
  factory (the one-field struct around the factory function is left out).
\<close>

definition triggerFnFactories ::
  "string \<rightharpoonup> (iface \<Rightarrow> panic + TriggerFn option \<times> error option)" where
  "triggerFnFactories =
     [''relativeThreshold'' \<mapsto> relativeThresholdFactory,
      ''absoluteThreshold'' \<mapsto> absoluteThresholdFactory]"

text \<open>
  \<^verbatim>\<open>makeTriggerFn\<close> is unfinished in the source: it tests a variable \<^verbatim>\<open>err\<close> (line 69)
  that no statement before it declares, and its body ends (line 79) without a
  \<^verbatim>\<open>return\<close>. Both gaps are parameters of the model, so that nothing proved below
  depends on how they would be closed: \<open>err_in_scope\<close> is the value of that variable
  and \<open>result_at_end\<close> is what the function yields when it reaches the end of its body
  with the factory's \<^verbatim>\<open>triggerFn\<close>. The two \<^verbatim>\<open>return errors...\<close> statements give the
  error result only; they are read as returning a nil \<^verbatim>\<open>TriggerFn\<close> beside it.
\<close>

record unwritten =
  err_in_scope :: "error option"
  result_at_end :: "TriggerFn option \<Rightarrow> TriggerFn option \<times> error option"

definition makeTriggerFn ::
  "unwritten \<Rightarrow> string \<Rightarrow> iface \<Rightarrow> panic + TriggerFn option \<times> error option" where
  "makeTriggerFn u triggerFunctionName params =
     (case triggerFnFactories triggerFunctionName of
        None \<Rightarrow> Inr (None, Some (UnknownTriggerFn triggerFunctionName))
      | Some triggerFnFactory \<Rightarrow>
          (case err_in_scope u of
             Some err \<Rightarrow> Inr (None, Some (WhileParsingParameters err triggerFunctionName))
           | None \<Rightarrow>
               (case triggerFnFactory params of
                  Inl p \<Rightarrow> Inl p
                | Inr (triggerFn, Some err) \<Rightarrow>
                    Inr (None, Some (WhileDeserializing err triggerFunctionName params))
                | Inr (triggerFn, None) \<Rightarrow> Inr (result_at_end u triggerFn))))"

subsection \<open>Slices and the by-value receiver of Scan\<close>

text \<open>
  \<^verbatim>\<open>TriggerFns\<close> is the slice type \<^verbatim>\<open>[]TriggerFn\<close>. A Go slice is a header (pointer
  into a backing array, length, capacity) that is copied when passed by value, while the
  backing array is shared. The heap is the list of backing arrays, an array's address is
  its index, and the pointer of a header is an array and an offset into it.
\<close>

record slice =
  ptr :: nat
  off :: nat
  len :: nat
  cap :: nat

type_synonym heap = "TriggerFn option list list"

text \<open>The elements a holder of the header \<open>s\<close> sees: \<^verbatim>\<open>s[0], ..., s[len(s)-1]\<close>.\<close>

definition elems :: "heap \<Rightarrow> slice \<Rightarrow> TriggerFn option list" where
  "elems h s = take (len s) (drop (off s) (h ! ptr s))"

text \<open>
  The builtin \<^verbatim>\<open>append(s, x)\<close>: with spare capacity it writes \<open>x\<close> into the shared
  backing array just behind the slice and returns a longer header; otherwise it copies
  the elements into a fresh array. The capacity of the fresh array is the runtime's
  choice, the parameter \<open>grow\<close>, and at least the length needed.
\<close>

definition append_go :: "(nat \<Rightarrow> nat) \<Rightarrow> heap \<Rightarrow> slice \<Rightarrow> TriggerFn option \<Rightarrow> heap \<times> slice" where
  "append_go grow h s x =
     (if len s < cap s then
        (h[ptr s := (h ! ptr s)[off s + len s := x]], s\<lparr>len := len s + 1\<rparr>)
      else
        let newcap = max (len s + 1) (grow (cap s))
        in (h @ [elems h s @ [x] @ replicate (newcap - (len s + 1)) None],
            \<lparr>ptr = length h, off = 0, len = len s + 1, cap = newcap\<rparr>))"

text \<open>
  A header is well formed in a heap when its window lies inside its backing array; a
  slice of capacity 0 (the nil slice among them) needs no array.
\<close>

definition wf_slice :: "heap \<Rightarrow> slice \<Rightarrow> bool" where
  "wf_slice h s \<longleftrightarrow>
     len s \<le> cap s \<and> (0 < cap s \<longrightarrow> ptr s < length h \<and> off s + cap s \<le> length (h ! ptr s))"

text \<open>
  \<^verbatim>\<open>getTriggerFnMap\<close> goes through \<^verbatim>\<open>models.JSON\<close> of the package
  \<^verbatim>\<open>core/store/models\<close>, which is used here by its methods only: the three it calls
  are parameters. \<^verbatim>\<open>AsMap\<close> yields a Go map, which
  \<^verbatim>\<open>Scan\<close> ranges over in an unspecified order: the list is the map's entries in the
  order of that iteration.
\<close>

record ('v, 'j) models_JSON =
  json_Scan :: "'v \<Rightarrow> error + 'j"
  IsObject :: "'j \<Rightarrow> bool"
  AsMap :: "'j \<Rightarrow> error + (string \<times> iface) list"

definition getTriggerFnMap :: "('v, 'j) models_JSON \<Rightarrow> 'v \<Rightarrow> error + (string \<times> iface) list" where
  "getTriggerFnMap J value =
     (case json_Scan J value of
        Inl err \<Rightarrow> Inl (WhileParsingMap err)
      | Inr json \<Rightarrow>
          if \<not> IsObject J json then Inl NotAJSONObject
          else (case AsMap J json of
                  Inl err \<Rightarrow> Inl (CouldNotReadMap err)
                | Inr asMap \<Rightarrow> Inr asMap))"

text \<open>
  The \<^verbatim>\<open>for ... range asMap\<close> loop of \<^verbatim>\<open>Scan\<close>, on the heap and the local variable
  \<^verbatim>\<open>f\<close>; the error of \<^verbatim>\<open>makeTriggerFn\<close> is dropped as in the source, and a panic
  of the factory ends the loop and the method.
\<close>

fun Scan_range ::
  "unwritten \<Rightarrow> (nat \<Rightarrow> nat) \<Rightarrow> (string \<times> iface) list \<Rightarrow> heap \<Rightarrow> slice \<Rightarrow> panic + heap \<times> slice" where
  "Scan_range u grow [] h f = Inr (h, f)"
| "Scan_range u grow ((triggerFunctionName, params) # rest) h f =
     (case makeTriggerFn u triggerFunctionName params of
        Inl p \<Rightarrow> Inl p
      | Inr (triggerFn, err) \<Rightarrow>
          (case append_go grow h f triggerFn of
             (h', f') \<Rightarrow> Scan_range u grow rest h' f'))"

text \<open>
  \<^verbatim>\<open>func (f TriggerFns) Scan(value interface{}) error\<close>: the receiver \<open>f\<close> is the
  caller's header passed by value. The method returns the error only; what it leaves
  behind for the caller is the heap.
\<close>

definition Scan ::
  "('v, 'j) models_JSON \<Rightarrow> unwritten \<Rightarrow> (nat \<Rightarrow> nat) \<Rightarrow> heap \<Rightarrow> slice \<Rightarrow> 'v \<Rightarrow>
     panic + heap \<times> error option" where
  "Scan J u grow h f value =
     (case getTriggerFnMap J value of
        Inl err \<Rightarrow> Inr (h, Some err)
      | Inr asMap \<Rightarrow>
          (case Scan_range u grow asMap h f of
             Inl p \<Rightarrow> Inl p
           | Inr (h', f') \<Rightarrow> Inr (h', None)))"

text \<open>
  How the local header \<open>l\<close> of \<^verbatim>\<open>Scan\<close> stands to the caller's header \<open>f\<close>: while
  both point into the same array, \<open>l\<close> starts where \<open>f\<close> starts and is at least as long.
\<close>

definition apart :: "slice \<Rightarrow> slice \<Rightarrow> bool" where
  "apart f l \<longleftrightarrow> (ptr l = ptr f \<longrightarrow> off l = off f \<and> len f \<le> len l)"

section \<open>The explorer's search query (searchQuery)\<close>

text \<open>
  \<^verbatim>\<open>URLSearchParams\<close> is the list of name-value pairs of a query string, in their order
  in the URL; \<^verbatim>\<open>get(name)\<close> returns the first value with that name and \<^verbatim>\<open>null\<close>
  (\<open>None\<close>) when there is none. Strings are taken after decoding.
\<close>

type_synonym URLSearchParams = "(string \<times> string) list"

definition get :: "URLSearchParams \<Rightarrow> string \<Rightarrow> string option" where
  "get searchParams name = map_of searchParams name"

text \<open>JavaScript's truthiness on \<^verbatim>\<open>string | null\<close>: \<^verbatim>\<open>null\<close> and \<^verbatim>\<open>''\<close> are falsy.\<close>

definition truthy :: "string option \<Rightarrow> bool" where
  "truthy v = (case v of None \<Rightarrow> False | Some s \<Rightarrow> s \<noteq> [])"

text \<open>
  \<^verbatim>\<open>searchQuery(location)\<close>. The browser's URL parser is outside the code:
  \<open>URL_searchParams location\<close> stands for
  \<^verbatim>\<open>new URL(location.toString()).searchParams\<close> (a \<^verbatim>\<open>Location\<close> prints as its
  \<^verbatim>\<open>href\<close>, which the constructor accepts). The result \<^verbatim>\<open>undefined\<close> is \<open>None\<close>.
\<close>

definition searchQuery :: "('location \<Rightarrow> URLSearchParams) \<Rightarrow> 'location \<Rightarrow> string option" where
  "searchQuery URL_searchParams location =
     (let searchParams = URL_searchParams location;
          search = get searchParams ''search''
      in if truthy search then search else None)"

section \<open>The Run Execution Engine\<close>

text \<open>
  The Head Tracker, the Job Run State Machine and the Transaction Confirmation
  Coordinator are described by the specification (sections 3, 4.1, 4.2 and 4.4). The
  source files of the repository that this development covers hold none of their code,
  so each definition of this section is a model of the specification's words and says
  which missing part it stands for.
\<close>

subsection \<open>Heads and the chain view\<close>

text \<open>Modelled from the spec: the type of block hashes (missing); any countable type will do.\<close>

type_synonym hash = nat

text \<open>
  Modelled from the spec: the data type Head (missing), section 3:
  \<open>{hash, parentHash, number, timestamp}\<close>.
\<close>

record Head =
  hash :: hash
  parentHash :: hash
  number :: nat
  timestamp :: nat

text \<open>
  Modelled from the spec: the Head Tracker's event types (missing), section 4.1:
  \<open>HeadConfirmed(hash, depth)\<close> and \<open>Reorg(commonAncestor, discardedHashes, newHashes)\<close>;
  the hash sets are listed newest first.
\<close>

datatype event =
  is_HeadConfirmed: HeadConfirmed hash nat
  | is_Reorg: Reorg (commonAncestor: hash) (discardedHashes: "hash list") (newHashes: "hash list")

text \<open>
  Modelled from the spec: the Head Tracker's state (missing), sections 3 and 4.1.
  \<open>view\<close> is the HeadChainView, the recent heads newest first; \<open>maxDepth\<close> is the
  maximum tracked confirmation depth; \<open>thresholds\<close> are the depths subscribers have
  registered interest in.
\<close>

record HeadTracker =
  view :: "Head list"
  maxDepth :: nat
  thresholds :: "nat list"




text \<open>
  Modelled from the spec: the Head Tracker's \<open>confirmationsOf(hash)\<close> (missing), section
  4.1: the number of descendant heads observed for a head, which is its position in the
  view; \<open>None\<close> is the result "unknown" for a head that was pruned or never seen.
\<close>

fun confirmationsOf :: "Head list \<Rightarrow> hash \<Rightarrow> nat option" where
  "confirmationsOf [] h = None"
| "confirmationsOf (x # xs) h =
     (if hash x = h then Some 0 else map_option Suc (confirmationsOf xs h))"

text \<open>
  Modelled from the spec: the pruning step of \<open>onNewHead\<close> (missing), section 4.1. Heads
  deeper than the maximum tracked confirmation depth leave the view; a head at that depth
  stays.
\<close>

definition prune :: "nat \<Rightarrow> Head list \<Rightarrow> Head list" where
  "prune d v = take (Suc d) v"

text \<open>
  Modelled from the spec: when the tracker raises \<open>HeadConfirmed\<close> (missing), section
  4.1: "whenever any tracked head crosses a depth threshold a subscriber registered
  interest in". A head has crossed a threshold when its confirmations have reached it in
  the new view and had not in the old one.
\<close>

definition crossed :: "Head list \<Rightarrow> Head list \<Rightarrow> hash \<Rightarrow> nat \<Rightarrow> bool" where
  "crossed old new h d =
     (case confirmationsOf new h of
        None \<Rightarrow> False
      | Some c \<Rightarrow> d \<le> c \<and> (case confirmationsOf old h of None \<Rightarrow> True | Some c0 \<Rightarrow> c0 < d))"

text \<open>
  Modelled from the spec: the \<open>HeadConfirmed\<close> events of one change of the view
  (missing), one for each head of the new view and each threshold it has crossed, with
  the threshold as the depth.
\<close>

definition confirmed_events :: "nat list \<Rightarrow> Head list \<Rightarrow> Head list \<Rightarrow> event list" where
  "confirmed_events ths old new =
     concat (map (\<lambda>x. map (\<lambda>d. HeadConfirmed (hash x) d)
                         (filter (\<lambda>d. crossed old new (hash x) d) ths)) new)"

text \<open>
  Modelled from the spec: the walk of reorg reconciliation inside \<open>onNewHead\<close>
  (missing), section 4.1: "walks backward from the new
  head (fetching ancestors from the Chain Client Adapter as needed) until it finds a
  common ancestor with the existing view". \<open>getHeadByHash\<close> is the adapter's lookup,
  \<open>None\<close> when it is unreachable or does not know the hash. The walk collects the new
  branch, newest first, and stops at the first head whose parent is in the view. The
  specification puts no bound on the walk: where it goes on forever the result is
  \<open>None\<close>.
\<close>

datatype walk = Unreachable | Branch "Head list"

partial_function (option) walk_back ::
  "(hash \<Rightarrow> Head option) \<Rightarrow> Head list \<Rightarrow> Head list \<Rightarrow> Head \<Rightarrow> walk option" where
  "walk_back getHeadByHash v branch cur =
     (if parentHash cur \<in> hash ` set v then Some (Branch branch)
      else case getHeadByHash (parentHash cur) of
             None \<Rightarrow> Some Unreachable
           | Some p \<Rightarrow> walk_back getHeadByHash v (branch @ [p]) p)"

text \<open>
  Modelled from the spec: the Head Tracker's \<open>onNewHead(head)\<close> (missing), section 4.1.
  A head whose parentHash is
  the hash of the top of the view is put on top. Any other head starts the
  reconciliation: the entries above the common ancestor are discarded and the new branch
  takes their place, with a \<open>Reorg\<close> event when something was discarded. If the adapter
  cannot supply an ancestor the view does not advance. An empty view takes the head as
  its only entry. The result is the new state and the events raised, \<open>Reorg\<close> first.
\<close>

definition onNewHead ::
  "(hash \<Rightarrow> Head option) \<Rightarrow> HeadTracker \<Rightarrow> Head \<Rightarrow> (HeadTracker \<times> event list) option" where
  "onNewHead getHeadByHash tr head =
     (case view tr of
        [] \<Rightarrow>
          let new = prune (maxDepth tr) [head]
          in Some (tr\<lparr>view := new\<rparr>, confirmed_events (thresholds tr) [] new)
      | topHead # rest \<Rightarrow>
          if parentHash head = hash topHead then
            let new = prune (maxDepth tr) (head # view tr)
            in Some (tr\<lparr>view := new\<rparr>, confirmed_events (thresholds tr) (view tr) new)
          else
            (case walk_back getHeadByHash (view tr) [head] head of
               None \<Rightarrow> None
             | Some Unreachable \<Rightarrow> Some (tr, [])
             | Some (Branch branch) \<Rightarrow>
                 let commonAncestor = parentHash (last branch);
                     discarded = takeWhile (\<lambda>x. hash x \<noteq> commonAncestor) (view tr);
                     kept = dropWhile (\<lambda>x. hash x \<noteq> commonAncestor) (view tr);
                     new = prune (maxDepth tr) (branch @ kept)
                 in Some (tr\<lparr>view := new\<rparr>,
                          (if discarded = [] then []
                           else [Reorg commonAncestor (map hash discarded) (map hash branch)])
                          @ confirmed_events (thresholds tr) (view tr) new)))"




subsection \<open>The Transaction Confirmation Coordinator\<close>



text \<open>
  Modelled from the spec: the answer of the Chain Client Adapter's
  \<open>getReceipt(txHash) -> (includedHead, status)\<close> (missing), section 6, for the hash of
  the transaction: the head the transaction is included in, named by its hash, and the
  status of the receipt; \<open>None\<close> while the transaction is included in no head. The
  inclusion head is not a field of PendingTransaction; the Coordinator has it from this
  answer.
\<close>

datatype receipt_status = Succeeded | Reverted





subsection \<open>The Job Run State Machine: createRun\<close>

text \<open>
  Modelled from the spec: the data types Job, TaskRun and Run with their statuses
  (missing), section 3; payloads, inputs and outputs are opaque strings.
\<close>

record Job =
  jobId :: nat
  triggerSpec :: string
  taskSpecs :: "string list"

datatype task_status = Pending | TaskCompleted | TaskErrored

record TaskRun =
  taskId :: nat
  taskStatus :: task_status
  taskInput :: string
  taskOutput :: string
  taskError :: "string option"
  confirmedTx :: "nat option"

datatype run_status = Unstarted | InProgress | PendingConfirmation | Completed | Errored | Cancelled

record Run =
  runId :: nat
  runJobId :: nat
  runStatus :: run_status
  taskRuns :: "TaskRun list"
  createdAt :: nat
  finishedAt :: "nat option"

text \<open>
  Modelled from the spec: the persistent store (missing) as far as \<open>createRun\<close> uses it,
  sections 4.2 and 6. Each
  persisted Run is kept under its idempotency key with the trigger payload it was
  created for; \<open>nextRunId\<close> is the store's id sequence.
\<close>

record Store =
  runs :: "(string \<times> string \<times> Run) list"
  nextRunId :: nat

text \<open>Modelled from the spec: the store's uniqueness constraint on idempotency keys (missing).\<close>

definition unique_keys :: "Store \<Rightarrow> bool" where
  "unique_keys st \<longleftrightarrow> distinct (map fst (runs st))"

text \<open>
  Modelled from the spec: the Job Run State Machine's
  \<open>createRun(job, triggerPayload, idempotencyKey)\<close> (missing), section 4.2, one
  transaction on the store. A Run already persisted under the key is returned
  and nothing is written; otherwise a new Run is persisted \<open>Unstarted\<close> and returned.
  \<open>now\<close> is the clock.
\<close>

definition createRun :: "nat \<Rightarrow> Store \<Rightarrow> Job \<Rightarrow> string \<Rightarrow> string \<Rightarrow> Store \<times> Run" where
  "createRun now st job triggerPayload idempotencyKey =
     (case map_of (runs st) idempotencyKey of
        Some (p, existing) \<Rightarrow> (st, existing)
      | None \<Rightarrow>
          let run = \<lparr>runId = nextRunId st, runJobId = jobId job, runStatus = Unstarted,
                     taskRuns = [], createdAt = now, finishedAt = None\<rparr>
          in (st\<lparr>runs := runs st @ [(idempotencyKey, triggerPayload, run)],
                 nextRunId := Suc (nextRunId st)\<rparr>, run))"

text \<open>The Runs persisted under a key.\<close>

definition runs_with_key :: "Store \<Rightarrow> string \<Rightarrow> Run list" where
  "runs_with_key st k = map (\<lambda>e. snd (snd e)) (filter (\<lambda>e. fst e = k) (runs st))"

subsection \<open>Auxiliary notions for the proofs\<close>


text \<open>
  A small chain for the examples: heads 10 to 14 and a competing branch from 11 to 14
  on head 10.
\<close>

definition head10 :: Head where
  "head10 = \<lparr>hash = 10, parentHash = 9, number = 10, timestamp = 100\<rparr>"

definition head11 :: Head where
  "head11 = \<lparr>hash = 11, parentHash = 10, number = 11, timestamp = 110\<rparr>"

definition head12 :: Head where
  "head12 = \<lparr>hash = 12, parentHash = 11, number = 12, timestamp = 120\<rparr>"



definition head11' :: Head where
  "head11' = \<lparr>hash = 21, parentHash = 10, number = 11, timestamp = 111\<rparr>"

definition head12' :: Head where
  "head12' = \<lparr>hash = 22, parentHash = 21, number = 12, timestamp = 121\<rparr>"



definition tracker0 :: HeadTracker where
  "tracker0 = \<lparr>view = [head10], maxDepth = 5, thresholds = [3]\<rparr>"




section \<open>What the decimal operations compute\<close>

lemma pow10_split: "e \<le> x \<Longrightarrow> (10::rat) powi x = 10 ^ nat (x - e) * 10 powi e"
proof -
  assume le: "e \<le> x"
  have "(10::rat) powi (int (nat (x - e)) + e) = 10 powi int (nat (x - e)) * 10 powi e"
    by (rule power_int_add) simp
  then show ?thesis using le by (simp add: power_int_def)
qed

lemma val_rescale_down: "e \<le> dexp d \<Longrightarrow> val (rescale d e) = val d"
  using pow10_split[of e "dexp d"] by (simp add: rescale_def val_def)

lemma RescalePair_val:
  "RescalePair d1 d2 = (rd, rd2) \<Longrightarrow>
     val rd = val d1 \<and> val rd2 = val d2 \<and> dexp rd = dexp rd2"
proof (cases "dexp d1 = dexp d2")
  case True
  assume "RescalePair d1 d2 = (rd, rd2)"
  with True show ?thesis by (simp add: RescalePair_def)
next
  case False
  assume p: "RescalePair d1 d2 = (rd, rd2)"
  show ?thesis
  proof (cases "dexp d1 < dexp d2")
    case True
    with False p have "rd = d1" "rd2 = rescale d2 (dexp d1)"
      by (auto simp: RescalePair_def Let_def min_def)
    with True show ?thesis
      using val_rescale_down[of "dexp d1" d2] by (simp add: rescale_def)
  next
    case ge: False
    with False p have "rd = rescale d1 (dexp d2)" "rd2 = d2"
      by (auto simp: RescalePair_def Let_def min_def)
    with ge show ?thesis
      using val_rescale_down[of "dexp d2" d1] by (simp add: rescale_def)
  qed
qed

lemma val_Sub: "val (Sub d d2) = val d - val d2"
proof -
  obtain rd rd2 where p: "RescalePair d d2 = (rd, rd2)"
    by (cases "RescalePair d d2")
  from RescalePair_val[OF p] have v: "val rd = val d" "val rd2 = val d2" and e: "dexp rd = dexp rd2"
    by simp_all
  have "val (Sub d d2) = val rd - val rd2"
    using p e by (simp add: Sub_def val_def algebra_simps)
  with v show ?thesis by simp
qed

lemma val_Add: "val (Add d d2) = val d + val d2"
proof -
  obtain rd rd2 where p: "RescalePair d d2 = (rd, rd2)"
    by (cases "RescalePair d d2")
  from RescalePair_val[OF p] have v: "val rd = val d" "val rd2 = val d2" and e: "dexp rd = dexp rd2"
    by simp_all
  have "val (Add d d2) = val rd + val rd2"
    using p e by (simp add: Add_def val_def algebra_simps)
  with v show ?thesis by simp
qed

lemma val_Abs: "val (Abs d) = \<bar>val d\<bar>"
  by (simp add: Abs_def val_def abs_mult)

lemma val_eq_0_iff: "val d = 0 \<longleftrightarrow> dvalue d = 0"
  by (simp add: val_def)

lemma Sign_eq_0_iff: "Sign d = 0 \<longleftrightarrow> val d = 0"
  by (simp add: Sign_def val_eq_0_iff sgn_if)

lemma val_less_same_exp:
  "dexp a = dexp b \<Longrightarrow> val a < val b \<longleftrightarrow> dvalue a < dvalue b"
proof -
  assume e: "dexp a = dexp b"
  have pos: "(0::rat) < 10 powi dexp b"
    by simp
  have "val a < val b \<longleftrightarrow> rat_of_int (dvalue a) < rat_of_int (dvalue b)"
    unfolding val_def e using pos by (rule mult_less_cancel_right_pos)
  then show ?thesis by simp
qed

lemma LessThan_iff: "LessThan d d2 \<longleftrightarrow> val d < val d2"
proof -
  obtain rd rd2 where p: "RescalePair d d2 = (rd, rd2)"
    by (cases "RescalePair d d2")
  from RescalePair_val[OF p] have "val d < val d2 \<longleftrightarrow> dvalue rd < dvalue rd2"
    using val_less_same_exp[of rd rd2] by simp
  moreover have "Cmp d d2 = int_Cmp (dvalue rd) (dvalue rd2)"
    using p by (cases "dexp d = dexp d2") (auto simp: Cmp_def RescalePair_def)
  then have "LessThan d d2 \<longleftrightarrow> dvalue rd < dvalue rd2"
    by (simp add: LessThan_def int_Cmp_def)
  ultimately show ?thesis by simp
qed

lemma half_up_nonneg:
  fixes a b :: int
  assumes "0 \<le> a" "0 < b"
  shows "(if 2 * (a mod b) < b then a div b else a div b + 1) = \<lfloor>rat_of_int a / rat_of_int b + 1 / 2\<rfloor>"
proof -
  have "rat_of_int a / rat_of_int b + 1 / 2 = rat_of_int (2 * a + b) / rat_of_int (2 * b)"
    using assms by (simp add: field_simps)
  then have fl: "\<lfloor>rat_of_int a / rat_of_int b + 1 / 2\<rfloor> = (2 * a + b) div (2 * b)"
    by (simp only: floor_divide_of_int_eq)
  define q where "q = a div b"
  define r where "r = a mod b"
  have a: "a = q * b + r" by (simp add: q_def r_def)
  have r: "0 \<le> r" "r < b" using assms by (simp_all add: r_def)
  show ?thesis
  proof (cases "2 * r < b")
    case True
    have "2 * a + b = (2 * b) * q + (2 * r + b)"
      by (simp add: a algebra_simps)
    then have "(2 * a + b) div (2 * b) = q"
      using True r by (intro int_div_pos_eq[where r = "2 * r + b"]) simp_all
    with True fl show ?thesis by (simp add: q_def r_def)
  next
    case False
    have "2 * a + b = (2 * b) * (q + 1) + (2 * r - b)"
      by (simp add: a algebra_simps)
    then have "(2 * a + b) div (2 * b) = q + 1"
      using False r by (intro int_div_pos_eq[where r = "2 * r - b"]) simp_all
    with False fl show ?thesis by (simp add: q_def r_def)
  qed
qed

lemma round_quotient:
  fixes aa bb :: int
  assumes "bb \<noteq> 0"
  shows "(if 2 * \<bar>aa smod bb\<bar> < \<bar>bb\<bar> then aa sdiv bb
          else if sgn aa * sgn bb < 0 then aa sdiv bb - 1 else aa sdiv bb + 1)
         = round_half_away (rat_of_int aa / rat_of_int bb)"
proof -
  have b: "0 < \<bar>bb\<bar>" using assms by simp
  have m: "\<bar>aa smod bb\<bar> = \<bar>aa\<bar> mod \<bar>bb\<bar>"
    using b by (cases "aa = 0") (simp_all add: signed_modulo_int_def abs_mult abs_sgn_eq)
  have h: "(if 2 * (\<bar>aa\<bar> mod \<bar>bb\<bar>) < \<bar>bb\<bar> then \<bar>aa\<bar> div \<bar>bb\<bar> else \<bar>aa\<bar> div \<bar>bb\<bar> + 1)
           = \<lfloor>\<bar>rat_of_int aa / rat_of_int bb\<bar> + 1 / 2\<rfloor>"
    using half_up_nonneg[of "\<bar>aa\<bar>" "\<bar>bb\<bar>"] b by simp
  have "aa * bb = 0 \<or> 0 < aa * bb \<or> aa * bb < 0" by linarith
  then consider "aa = 0" | "0 < aa * bb" | "aa * bb < 0" using assms by auto
  then show ?thesis
  proof cases
    case 1
    have "\<lfloor>(1::rat) / 2\<rfloor> = 0" by (simp add: floor_eq_iff)
    with 1 show ?thesis using b by (simp add: round_half_away_def)
  next
    case 2
    then have s: "sgn aa * sgn bb = 1" 
      by (metis sgn_mult sgn_pos)
    have x: "\<not> rat_of_int aa / rat_of_int bb < 0"
      using 2 by (auto simp: zero_less_mult_iff divide_less_0_iff)
    show ?thesis
      using h s x by (auto simp: m signed_divide_int_def round_half_away_def split: if_splits)
  next
    case 3
    then have s: "sgn aa * sgn bb = - 1"
      by (metis sgn_mult sgn_neg)
    have x: "rat_of_int aa / rat_of_int bb < 0"
      using 3 by (auto simp: mult_less_0_iff divide_less_0_iff)
    show ?thesis
      using h s x by (auto simp: m signed_divide_int_def round_half_away_def split: if_splits)
  qed
qed

lemma Cmp_neg_iff: "Cmp d d2 < 0 \<longleftrightarrow> val d < val d2"
proof -
  obtain rd rd2 where p: "RescalePair d d2 = (rd, rd2)"
    by (cases "RescalePair d d2")
  from RescalePair_val[OF p] have "val d < val d2 \<longleftrightarrow> dvalue rd < dvalue rd2"
    using val_less_same_exp[of rd rd2] by simp
  moreover have "Cmp d d2 = int_Cmp (dvalue rd) (dvalue rd2)"
    using p by (cases "dexp d = dexp d2") (auto simp: Cmp_def RescalePair_def)
  then have "Cmp d d2 < 0 \<longleftrightarrow> dvalue rd < dvalue rd2"
    by (simp add: int_Cmp_def)
  ultimately show ?thesis by simp
qed

lemma pow10_nat: "0 \<le> k \<Longrightarrow> rat_of_int (10 ^ nat k) = 10 powi k"
  by (simp add: power_int_def)

lemma pow10_diff: "(10::rat) powi (a - b) = 10 powi a / 10 powi b"
  by (simp add: power_int_diff)

lemma DivRound_val:
  assumes nz: "dvalue d2 \<noteq> 0"
  shows "\<exists>q. DivRound d d2 p = Inr q \<and>
           val q = of_int (round_half_away (val d / val d2 * 10 powi p)) * 10 powi (- p)"
proof -
  define e where "e = dexp d - dexp d2 + p"
  define aa where "aa = (if e < 0 then dvalue d else dvalue d * 10 ^ nat e)"
  define bb where "bb = (if e < 0 then dvalue d2 * 10 ^ nat (- e) else dvalue d2)"
  define scalerest where "scalerest = (if e < 0 then dexp d else - p + dexp d2)"
  define qd where "qd = \<lparr>dvalue = aa sdiv bb, dexp = - p\<rparr>"
  define rd where "rd = \<lparr>dvalue = aa smod bb, dexp = scalerest\<rparr>"
  have qr: "QuoRem d d2 p = Inr (qd, rd)"
    using nz by (simp add: QuoRem_def Let_def e_def aa_def bb_def scalerest_def qd_def rd_def)
  have bb: "bb \<noteq> 0" using nz by (simp add: bb_def)
  have ratio: "rat_of_int aa / rat_of_int bb = val d / val d2 * 10 powi p"
  proof (cases "e < 0")
    case True
    then have "rat_of_int bb = rat_of_int (dvalue d2) * 10 powi (- e)"
      using pow10_nat[of "- e"] by (simp add: bb_def)
    moreover have "(10::rat) powi (- e) = 10 powi dexp d2 / (10 powi dexp d * 10 powi p)"
      by (simp add: e_def power_int_diff power_int_add power_int_minus field_simps)
    ultimately have "rat_of_int bb =
        rat_of_int (dvalue d2) * 10 powi dexp d2 / (10 powi dexp d * 10 powi p)"
      by simp
    then show ?thesis using True
      by (simp add: aa_def val_def)
  next
    case False
    then have "rat_of_int aa = rat_of_int (dvalue d) * 10 powi e"
      using pow10_nat[of e] by (simp add: aa_def)
    moreover have "(10::rat) powi e = 10 powi dexp d * 10 powi p / 10 powi dexp d2"
      by (simp add: e_def power_int_diff power_int_add)
    ultimately show ?thesis using False nz
      by (simp add: bb_def val_def field_simps)
  qed
  have cmp: "Cmp \<lparr>dvalue = \<bar>dvalue rd\<bar> * 2, dexp = dexp rd + p\<rparr> (Abs d2) < 0
               \<longleftrightarrow> 2 * \<bar>aa smod bb\<bar> < \<bar>bb\<bar>"
  proof (cases "e < 0")
    case True
    have pos: "(0::rat) < 10 powi (dexp d + p)" by simp
    have "rat_of_int \<bar>bb\<bar> = rat_of_int \<bar>dvalue d2\<bar> * 10 powi (- e)"
      using True pow10_nat[of "- e"] by (simp add: bb_def abs_mult)
    moreover have "(10::rat) powi (- e) = 10 powi dexp d2 / 10 powi (dexp d + p)"
      by (simp add: e_def power_int_diff power_int_add power_int_minus field_simps)
    ultimately have "val (Abs d2) = rat_of_int \<bar>bb\<bar> * 10 powi (dexp d + p)"
      by (simp add: val_def Abs_def)
    moreover have "val \<lparr>dvalue = \<bar>dvalue rd\<bar> * 2, dexp = dexp rd + p\<rparr>
                   = rat_of_int (2 * \<bar>aa smod bb\<bar>) * 10 powi (dexp d + p)"
      using True by (simp add: val_def rd_def scalerest_def)
    ultimately have "val \<lparr>dvalue = \<bar>dvalue rd\<bar> * 2, dexp = dexp rd + p\<rparr> < val (Abs d2)
                     \<longleftrightarrow> rat_of_int (2 * \<bar>aa smod bb\<bar>) < rat_of_int \<bar>bb\<bar>"
      using pos by (simp only: mult_less_cancel_right_pos)
    then show ?thesis by (simp only: Cmp_neg_iff of_int_less_iff)
  next
    case False
    have pos: "(0::rat) < 10 powi dexp d2" by simp
    have "val (Abs d2) = rat_of_int \<bar>bb\<bar> * 10 powi dexp d2"
      using False by (simp add: val_def Abs_def bb_def)
    moreover have "val \<lparr>dvalue = \<bar>dvalue rd\<bar> * 2, dexp = dexp rd + p\<rparr>
                   = rat_of_int (2 * \<bar>aa smod bb\<bar>) * 10 powi dexp d2"
      using False by (simp add: val_def rd_def scalerest_def)
    ultimately have "val \<lparr>dvalue = \<bar>dvalue rd\<bar> * 2, dexp = dexp rd + p\<rparr> < val (Abs d2)
                     \<longleftrightarrow> rat_of_int (2 * \<bar>aa smod bb\<bar>) < rat_of_int \<bar>bb\<bar>"
      using pos by (simp only: mult_less_cancel_right_pos)
    then show ?thesis by (simp only: Cmp_neg_iff of_int_less_iff)
  qed
  have sg: "sgn (dvalue d) * sgn (dvalue d2) = sgn aa * sgn bb"
    by (simp add: aa_def bb_def sgn_mult)
  have one: "val (New 1 (- p)) = 10 powi (- p)"
    by (simp add: New_def val_def)
  have vq: "val qd = rat_of_int (aa sdiv bb) * 10 powi (- p)"
    by (simp add: qd_def val_def)
  define res where "res =
     (if 2 * \<bar>aa smod bb\<bar> < \<bar>bb\<bar> then qd
      else if sgn aa * sgn bb < 0 then Sub qd (New 1 (- p)) else Add qd (New 1 (- p)))"
  have dr: "DivRound d d2 p = Inr res"
    using cmp sg by (simp add: DivRound_def qr Let_def res_def)
  have "val res = rat_of_int
     (if 2 * \<bar>aa smod bb\<bar> < \<bar>bb\<bar> then aa sdiv bb
      else if sgn aa * sgn bb < 0 then aa sdiv bb - 1 else aa sdiv bb + 1) * 10 powi (- p)"
    by (simp add: res_def val_Sub val_Add one vq algebra_simps)
  also have "\<dots> = rat_of_int (round_half_away (rat_of_int aa / rat_of_int bb)) * 10 powi (- p)"
    by (simp only: round_quotient[OF bb])
  finally show ?thesis using dr ratio by simp
qed

lemma abs_round_half_away: "\<bar>round_half_away x\<bar> = round_half_away \<bar>x\<bar>"
proof -
  have "0 \<le> \<lfloor>\<bar>x\<bar> + 1 / 2\<rfloor>" by simp
  then show ?thesis by (simp add: round_half_away_def)
qed

lemma abs_round16: "\<bar>round16 x\<bar> = round16 \<bar>x\<bar>"
proof -
  have "\<bar>round16 x\<bar> = rat_of_int \<bar>round_half_away (x * 10 ^ 16)\<bar> / 10 ^ 16"
    by (simp add: round16_def)
  also have "\<dots> = rat_of_int (round_half_away \<bar>x * 10 ^ 16\<bar>) / 10 ^ 16"
    by (simp only: abs_round_half_away)
  finally show ?thesis by (simp add: round16_def abs_mult)
qed

text \<open>Division by a non-zero decimal does not panic and rounds the quotient to 16 places.\<close>

lemma Div_val:
  assumes "val d2 \<noteq> 0"
  shows "\<exists>q. Div d d2 = Inr q \<and> val q = round16 (val d / val d2)"
proof -
  from assms have "dvalue d2 \<noteq> 0" by (simp add: val_eq_0_iff)
  from DivRound_val[OF this, of d 16] show ?thesis
    by (simp add: Div_def DivisionPrecision_def round16_def power_int_minus field_simps)
qed

subsection \<open>The conversion from floats\<close>

lemma trim_val: "val (trim v e) = of_int v * 10 powi e"
proof (induction v e rule: trim.induct)
  case (1 v e)
  show ?case
  proof (cases "v \<noteq> 0 \<and> v mod 10 = 0")
    case True
    then have v: "v = v div 10 * 10" by presburger
    have "val (trim v e) = val (trim (v div 10) (e + 1))"
      using True by (subst trim.simps) simp
    also have "\<dots> = of_int (v div 10) * 10 powi (e + 1)"
      using 1 True by simp
    also have "\<dots> = of_int (v div 10 * 10) * 10 powi e"
      by (simp add: power_int_add)
    finally show ?thesis using v by simp
  next
    case False
    then show ?thesis
      by (subst trim.simps) (auto simp: val_def New_def)
  qed
qed

lemma div_pow_bounds:
  fixes d :: int
  shows "d div 10 ^ p * 10 ^ p \<le> d" "d < d div 10 ^ p * 10 ^ p + 10 ^ p"
proof -
  have pos: "(0::int) < 10 ^ p" by simp
  have "d = d div 10 ^ p * 10 ^ p + d mod 10 ^ p"
    using div_mult_mod_eq[of d "10 ^ p"] by linarith
  moreover have "0 \<le> d mod 10 ^ p" "d mod 10 ^ p < 10 ^ p"
    using pos by (auto intro: pos_mod_sign pos_mod_bound)
  ultimately show "d div 10 ^ p * 10 ^ p \<le> d" "d < d div 10 ^ p * 10 ^ p + 10 ^ p"
    by linarith+
qed

lemma roundShortest_bounds:
  "lower \<le> d \<Longrightarrow> d \<le> upper \<Longrightarrow>
     lower \<le> roundShortest incl lower d upper p \<and> roundShortest incl lower d upper p \<le> upper"
proof (induction incl lower d upper p rule: roundShortest.induct)
  case (1 incl lower d upper p)
  note b = div_pow_bounds[of d p]
  show ?case
    using b "1.prems" "1.IH"
    by (subst (1 2) roundShortest.simps) (auto simp: Let_def)
qed

lemma NewFromFloat_panics:
  "IsNaN f \<or> IsInf f \<Longrightarrow> NewFromFloat f = Inl (CannotCreateDecimalFrom f)"
  by (auto simp: NewFromFloat_def IsNaN_def IsInf_def)

lemma scaled_val:
  "of_int (x * (if 0 \<le> k then 2 ^ nat k else 5 ^ nat (- k))) * 10 powi (- (if 0 \<le> k then 0 else - k))
     = (of_int x :: rat) * 2 powi k"
proof (cases "0 \<le> k")
  case True
  then show ?thesis by (simp add: power_int_def)
next
  case False
  then have "(10::rat) powi k = 2 powi k * 5 powi k"
    by (simp add: power_int_def flip: power_mult_distrib)
  moreover have "(5::rat) ^ nat (- k) * 5 powi k = 1"
    using False by (simp add: power_int_def flip: power_mult_distrib)
  ultimately show ?thesis using False by (simp add: algebra_simps)
qed

lemma NewFromFloat_bound:
  assumes "\<not> IsNaN f" "\<not> IsInf f"
  shows "\<exists>d. NewFromFloat f = Inr d \<and> 2 * \<bar>val d - fval f\<bar> \<le> ulp f"
proof (cases "expbits f = 0 \<and> fracbits f = 0")
  case True
  then show ?thesis
    by (simp add: NewFromFloat_def val_def New_def fval_def mant_def ulp_def)
next
  case False
  define k where "k = exp2 f - 2"
  define c :: int where "c = (if 0 \<le> k then 2 ^ nat k else 5 ^ nat (- k))"
  define s where "s = (if 0 \<le> k then 0 else - k)"
  define r where "r = roundShortest (inclusive f) (lower4 f * c) (4 * mant f * c) (upper4 f * c)
                  (digits (upper4 f * c) - 1)"
  have N: "NewFromFloat f = Inr (trim (if signbit f then - r else r) (- s))"
    using False assms by (auto simp: NewFromFloat_def Let_def k_def c_def s_def r_def)
  have cpos: "0 < c" by (simp add: c_def)
  have m0: "0 \<le> mant f" by (simp add: mant_def)
  have l4: "4 * mant f - 2 \<le> lower4 f" "lower4 f \<le> 4 * mant f" by (auto simp: lower4_def)
  have "lower4 f * c \<le> 4 * mant f * c" "4 * mant f * c \<le> upper4 f * c"
    using cpos l4 by (auto simp: upper4_def mult_right_mono)
  from roundShortest_bounds[OF this]
  have rb: "lower4 f * c \<le> r" "r \<le> upper4 f * c" by (auto simp: r_def)
  have "(4 * mant f - 2) * c \<le> lower4 f * c" using cpos l4 by (simp add: mult_right_mono)
  with rb have "\<bar>r - 4 * mant f * c\<bar> \<le> 2 * c"
    by (auto simp: upper4_def algebra_simps abs_le_iff)
  then have ri: "\<bar>(of_int r :: rat) - of_int (4 * mant f * c)\<bar> \<le> of_int (2 * c)"
    by (metis of_int_abs of_int_diff of_int_le_iff)
  have w: "(of_int (x * c) :: rat) * 10 powi (- s) = of_int x * 2 powi k" for x
    unfolding c_def s_def by (rule scaled_val)
  have p10: "(0::rat) < 10 powi (- s)" by simp
  have fv: "fval f = (if signbit f then - 1 else 1) * (of_int (4 * mant f * c) * 10 powi (- s))"
  proof -
    have "(2::rat) powi exp2 f = 4 * 2 powi k"
      by (simp add: k_def power_int_diff)
    moreover have "(of_int (4 * mant f * c) :: rat) * 10 powi (- s) = of_int (4 * mant f) * 2 powi k"
      by (rule w)
    ultimately show ?thesis
      by (simp only: fval_def)
  qed
  have vd: "val (trim (if signbit f then - r else r) (- s))
            = (if signbit f then - 1 else 1) * (of_int r * 10 powi (- s))"
    by (simp add: trim_val)
  have "\<bar>val (trim (if signbit f then - r else r) (- s)) - fval f\<bar>
        = \<bar>(of_int r :: rat) - of_int (4 * mant f * c)\<bar> * 10 powi (- s)"
    unfolding vd fv
    by (simp add: abs_mult flip: left_diff_distrib right_diff_distrib)
  also have "\<dots> \<le> of_int (2 * c) * 10 powi (- s)"
    using ri p10 by (simp add: mult_right_mono)
  also have "\<dots> = 2 * 2 powi k" using w[of 2] by simp
  finally have "2 * \<bar>val (trim (if signbit f then - r else r) (- s)) - fval f\<bar> \<le> 4 * 2 powi k"
    by simp
  moreover have "ulp f = 4 * 2 powi k" by (simp add: ulp_def k_def power_int_diff)
  ultimately show ?thesis using N by simp
qed

section \<open>The trigger functions\<close>

text \<open>
  C5. The registry \<open>triggerFnFactories\<close> has exactly the two names
  \<open>relativeThreshold\<close> and \<open>absoluteThreshold\<close>, and \<open>makeTriggerFn\<close> called with any
  other name returns the error for an unknown trigger function and no \<open>TriggerFn\<close>,
  whatever the parameters and however the unfinished parts of the function are completed.
\<close>

theorem makeTriggerFn_unknown:
  "dom triggerFnFactories = {''relativeThreshold'', ''absoluteThreshold''} \<and>
   (triggerFunctionName \<notin> {''relativeThreshold'', ''absoluteThreshold''} \<longrightarrow>
      makeTriggerFn u triggerFunctionName params =
        Inr (None, Some (UnknownTriggerFn triggerFunctionName)))"
  by (auto simp: triggerFnFactories_def makeTriggerFn_def)

text \<open>The name \<open>medianThreshold\<close> with the parameter 0.5.\<close>

theorem makeTriggerFn_unknown_witness:
  "''medianThreshold'' \<notin> {''relativeThreshold'', ''absoluteThreshold''} \<and>
   makeTriggerFn \<lparr>err_in_scope = None, result_at_end = (\<lambda>t. (t, None))\<rparr> ''medianThreshold''
     (IFloat64 (Float64 False 1022 0)) = Inr (None, Some (UnknownTriggerFn ''medianThreshold''))"
  using makeTriggerFn_unknown[of "''medianThreshold''"
      "\<lparr>err_in_scope = None, result_at_end = (\<lambda>t. (t, None))\<rparr>"
      "IFloat64 (Float64 False 1022 0)"]
  by simp

text \<open>
  What the relative-threshold function computes. Made for a parameter that converts to
  the decimal \<open>d\<close>, it returns for \<open>current \<noteq> 0\<close> no error and the truth value of
  \<open>round16 (|current - new| / |current|) \<ge> d\<close>: the quotient is not compared exactly but
  after \<^verbatim>\<open>Div\<close> has rounded it to 16 decimal places, a half away from zero.
\<close>

lemma relativeThreshold_Div:
  assumes "NewFromFloat threshold = Inr d"
  shows "\<exists>fn. relativeThresholdFactory (IFloat64 threshold) = Inr (Some fn, None) \<and>
     (\<forall>current new extraData. val current \<noteq> 0 \<longrightarrow>
        Triggering fn current new extraData =
          Inr (val d \<le> round16 (\<bar>val current - val new\<bar> / \<bar>val current\<bar>), None))"
proof -
  obtain fn where f: "relativeThresholdFactory (IFloat64 threshold) = Inr (Some fn, None)"
    by (simp add: relativeThresholdFactory_def assms)
  have "Triggering fn current new extraData =
          Inr (val d \<le> round16 (\<bar>val current - val new\<bar> / \<bar>val current\<bar>), None)"
    if nz: "val current \<noteq> 0" for current new extraData
  proof -
    from Div_val[OF nz, of "Sub current new"] obtain q where
      q: "Div (Sub current new) current = Inr q"
         "val q = round16 ((val current - val new) / val current)"
      by (auto simp: val_Sub)
    have "val (Abs q) = round16 (\<bar>val current - val new\<bar> / \<bar>val current\<bar>)"
      by (simp add: val_Abs q abs_round16)
    then show ?thesis
      using nz q f
      by (auto simp: Triggering_def relativeThresholdFactory_def assms Sign_eq_0_iff
          LessThan_iff not_less)
  qed
  with f show ?thesis by blast
qed

text \<open>
  C6 at two inputs. The source says of the comparison (line 128) "Trigger if
  |current-new|/|current| >= threshold".

  With threshold 1, current \<open>10 ^ 17\<close> and new 1 the quotient is \<open>1 - 10 ^ (- 17)\<close>, below
  the threshold; \<^verbatim>\<open>Div\<close> rounds it to 1 and the function returns true.

  With threshold 0.10000000000000002, current \<open>10 ^ 17\<close> and new 89999999999999998 the
  quotient is 0.10000000000000002, not below the threshold, as a float or as the decimal
  it converts to; \<^verbatim>\<open>Div\<close> rounds it to 0.1 and the function returns false.
\<close>

theorem relativeThreshold_compares_rounded_quotient:
  "(case relativeThresholdFactory (IFloat64 (Float64 False 1023 0)) of
      Inr (Some fn, None) \<Rightarrow>
        Triggering fn (New 100000000000000000 0) (New 1 0) [] = Inr (True, None)
    | _ \<Rightarrow> False) \<and>
   fval (Float64 False 1023 0) = 1 \<and>
   NewFromFloat (Float64 False 1023 0) = Inr (New 1 0) \<and>
   \<bar>val (New 100000000000000000 0) - val (New 1 0)\<bar> / \<bar>val (New 100000000000000000 0)\<bar>
     < fval (Float64 False 1023 0) \<and>
   (case relativeThresholdFactory (IFloat64 (Float64 False 1019 2702159776422299)) of
      Inr (Some fn, None) \<Rightarrow>
        Triggering fn (New 100000000000000000 0) (New 89999999999999998 0) []
          = Inr (False, None)
    | _ \<Rightarrow> False) \<and>
   NewFromFloat (Float64 False 1019 2702159776422299) = Inr (New 10000000000000002 (- 17)) \<and>
   fval (Float64 False 1019 2702159776422299)
     \<le> \<bar>val (New 100000000000000000 0) - val (New 89999999999999998 0)\<bar>
         / \<bar>val (New 100000000000000000 0)\<bar> \<and>
   val (New 10000000000000002 (- 17))
     \<le> \<bar>val (New 100000000000000000 0) - val (New 89999999999999998 0)\<bar>
         / \<bar>val (New 100000000000000000 0)\<bar>"
  by code_simp




text \<open>
  C8. The relative-threshold function never panics. For a parameter that is not a number
  or not finite the factory makes no function. For every other parameter the function
  returns, on every pair of decimals, a truth value and no error, the division being
  reached only with a non-zero divisor, and for \<open>current = 0\<close> it returns true exactly
  when \<open>new \<noteq> 0\<close>, whatever the threshold.
\<close>

theorem relativeThreshold_total:
  "if IsNaN threshold \<or> IsInf threshold
   then relativeThresholdFactory (IFloat64 threshold) = Inl (CannotCreateDecimalFrom threshold)
   else \<exists>fn. relativeThresholdFactory (IFloat64 threshold) = Inr (Some fn, None) \<and>
          (\<forall>current new extraData.
             (\<exists>b. Triggering fn current new extraData = Inr (b, None)) \<and>
             (val current = 0 \<longrightarrow>
                Triggering fn current new extraData = Inr (val new \<noteq> 0, None)))"
proof (cases "IsNaN threshold \<or> IsInf threshold")
  case True
  then show ?thesis
    by (simp add: relativeThresholdFactory_def NewFromFloat_panics)
next
  case False
  with NewFromFloat_bound[of threshold] obtain d where d: "NewFromFloat threshold = Inr d"
    by auto
  obtain fn where f: "relativeThresholdFactory (IFloat64 threshold) = Inr (Some fn, None)"
    by (simp add: relativeThresholdFactory_def d)
  have tot: "\<exists>b. Triggering fn current new extraData = Inr (b, None)"
    for current new extraData
  proof (cases "val current = 0")
    case True
    then show ?thesis
      using f by (auto simp: Triggering_def relativeThresholdFactory_def d Sign_eq_0_iff)
  next
    case nz: False
    from Div_val[OF nz, of "Sub current new"] obtain q where
      "Div (Sub current new) current = Inr q" by blast
    with nz show ?thesis
      using f by (auto simp: Triggering_def relativeThresholdFactory_def d Sign_eq_0_iff)
  qed
  have zero: "Triggering fn current new extraData = Inr (val new \<noteq> 0, None)"
    if "val current = 0" for current new extraData
    using that f by (auto simp: Triggering_def relativeThresholdFactory_def d Sign_eq_0_iff)
  from f tot zero False show ?thesis by auto
qed

text \<open>With current 0 (written 0.00) and new 0.5 the function triggers, at threshold 1000.\<close>

theorem relativeThreshold_total_witness:
  "\<not> (IsNaN (Float64 False 1032 4292493394837504) \<or> IsInf (Float64 False 1032 4292493394837504)) \<and>
   val (New 0 (- 2)) = 0 \<and>
   (\<exists>fn. relativeThresholdFactory (IFloat64 (Float64 False 1032 4292493394837504))
            = Inr (Some fn, None) \<and>
      Triggering fn (New 0 (- 2)) (New 5 (- 1)) [] = Inr (True, None))"
proof -
  have n: "\<not> (IsNaN (Float64 False 1032 4292493394837504) \<or> IsInf (Float64 False 1032 4292493394837504))"
    by (simp add: IsNaN_def IsInf_def)
  have z: "val (New 0 (- 2)) = 0" by (simp add: val_def New_def)
  have nn: "val (New 5 (- 1)) \<noteq> 0" by (simp add: val_def New_def)
  from relativeThreshold_total[of "Float64 False 1032 4292493394837504"] n z nn show ?thesis
    by auto
qed

section \<open>Scan and its receiver\<close>

lemma length_elems: "wf_slice h s \<Longrightarrow> length (elems h s) = len s"
  by (cases "0 < cap s") (auto simp: wf_slice_def elems_def)

lemma append_go_wf:
  assumes "wf_slice h l" "append_go grow h l x = (h', l')"
  shows "wf_slice h' l' \<and> length h \<le> length h' \<and> elems h' l' = elems h l @ [x]"
proof (cases "len l < cap l")
  case True
  with assms have h': "h' = h[ptr l := (h ! ptr l)[off l + len l := x]]" and l': "l' = l\<lparr>len := len l + 1\<rparr>"
    by (auto simp: append_go_def)
  from True assms(1) have p: "ptr l < length h" "off l + cap l \<le> length (h ! ptr l)"
    by (auto simp: wf_slice_def)
  have "take (Suc (len l)) (drop (off l) ((h ! ptr l)[off l + len l := x]))
        = take (len l) (drop (off l) (h ! ptr l)) @ [x]"
    using p True by (simp add: take_Suc_conv_app_nth drop_update_swap)
  then show ?thesis
    using p True assms(1) by (simp add: h' l' wf_slice_def elems_def)
next
  case False
  with assms have h': "h' = h @ [elems h l @ [x] @ replicate (max (len l + 1) (grow (cap l)) - (len l + 1)) None]"
    and l': "l' = \<lparr>ptr = length h, off = 0, len = len l + 1, cap = max (len l + 1) (grow (cap l))\<rparr>"
    by (auto simp: append_go_def Let_def)
  show ?thesis
    using length_elems[OF assms(1)] by (simp add: h' l' wf_slice_def elems_def)
qed

lemma append_go_frame:
  assumes "wf_slice h l" "0 < cap f" "wf_slice h f" "apart f l" "append_go grow h l x = (h', l')"
  shows "apart f l' \<and> wf_slice h' f \<and> elems h' f = elems h f"
proof (cases "len l < cap l")
  case True
  with assms have h': "h' = h[ptr l := (h ! ptr l)[off l + len l := x]]" and l': "l' = l\<lparr>len := len l + 1\<rparr>"
    by (auto simp: append_go_def)
  from assms have pf: "ptr f < length h" "off f + cap f \<le> length (h ! ptr f)" "len f \<le> cap f"
    by (auto simp: wf_slice_def)
  show ?thesis
  proof (cases "ptr l = ptr f")
    case same: True
    with assms(4) have o: "off l = off f" "len f \<le> len l" by (auto simp: apart_def)
    have "take (len f) (drop (off f) ((h ! ptr f)[off f + len l := x])) = take (len f) (drop (off f) (h ! ptr f))"
      using o by (simp add: drop_update_swap)
    then show ?thesis
      using pf same o by (simp add: h' l' apart_def wf_slice_def elems_def)
  next
    case diff: False
    then show ?thesis
      using pf by (simp add: h' l' apart_def wf_slice_def elems_def)
  qed
next
  case False
  with assms have h': "h' = h @ [elems h l @ [x] @ replicate (max (len l + 1) (grow (cap l)) - (len l + 1)) None]"
    and l': "l' = \<lparr>ptr = length h, off = 0, len = len l + 1, cap = max (len l + 1) (grow (cap l))\<rparr>"
    by (auto simp: append_go_def Let_def)
  from assms have pf: "ptr f < length h" "off f + cap f \<le> length (h ! ptr f)" "len f \<le> cap f"
    by (auto simp: wf_slice_def)
  show ?thesis
    using pf by (simp add: h' l' apart_def wf_slice_def elems_def nth_append)
qed

lemma Scan_range_local:
  "wf_slice h l \<Longrightarrow> Scan_range u grow asMap h l = Inr (h', l') \<Longrightarrow>
     \<exists>made. elems h' l' = elems h l @ made \<and>
       list_all2 (\<lambda>(n, p) t. \<exists>e. makeTriggerFn u n p = Inr (t, e)) asMap made"
proof (induction asMap arbitrary: h l)
  case Nil
  then show ?case by simp
next
  case (Cons a asMap)
  obtain n p where a: "a = (n, p)" by (cases a)
  from Cons.prems(2) obtain t e where m: "makeTriggerFn u n p = Inr (t, e)"
    by (cases "makeTriggerFn u n p") (auto simp: a)
  obtain h1 l1 where ap: "append_go grow h l t = (h1, l1)" by (cases "append_go grow h l t")
  from append_go_wf[OF Cons.prems(1) ap] have w: "wf_slice h1 l1" and e: "elems h1 l1 = elems h l @ [t]"
    by simp_all
  from Cons.prems(2) have "Scan_range u grow asMap h1 l1 = Inr (h', l')"
    by (simp add: a m ap)
  from Cons.IH[OF w this] obtain made where
    "elems h' l' = elems h1 l1 @ made"
    "list_all2 (\<lambda>(n, p) t. \<exists>e. makeTriggerFn u n p = Inr (t, e)) asMap made"
    by blast
  then have "elems h' l' = elems h l @ (t # made) \<and>
       list_all2 (\<lambda>(n, p) t. \<exists>e. makeTriggerFn u n p = Inr (t, e)) (a # asMap) (t # made)"
    by (simp add: e a m)
  then show ?case by blast
qed

lemma Scan_range_frame:
  "wf_slice h l \<Longrightarrow> 0 < cap f \<Longrightarrow> wf_slice h f \<Longrightarrow> apart f l \<Longrightarrow>
     Scan_range u grow asMap h l = Inr (h', l') \<Longrightarrow> elems h' f = elems h f"
proof (induction asMap arbitrary: h l)
  case Nil
  then show ?case by simp
next
  case (Cons a asMap)
  obtain n p where a: "a = (n, p)" by (cases a)
  from Cons.prems(5) obtain t e where m: "makeTriggerFn u n p = Inr (t, e)"
    by (cases "makeTriggerFn u n p") (auto simp: a)
  obtain h1 l1 where ap: "append_go grow h l t = (h1, l1)" by (cases "append_go grow h l t")
  from append_go_wf[OF Cons.prems(1) ap] have w: "wf_slice h1 l1" by simp
  from append_go_frame[OF Cons.prems(1-4) ap]
  have fr: "apart f l1" "wf_slice h1 f" "elems h1 f = elems h f" by simp_all
  from Cons.prems(5) have "Scan_range u grow asMap h1 l1 = Inr (h', l')"
    by (simp add: a m ap)
  from Cons.IH[OF w Cons.prems(2) fr(2) fr(1) this] fr(3) show ?case by simp
qed

lemma Scan_range_caller:
  assumes "wf_slice h f" "Scan_range u grow asMap h f = Inr (h', l')"
  shows "elems h' f = elems h f"
proof (cases "0 < cap f")
  case True
  have "apart f f" by (simp add: apart_def)
  from Scan_range_frame[OF assms(1) True assms(1) this assms(2)] show ?thesis .
next
  case False
  with assms(1) have "len f = 0" by (simp add: wf_slice_def)
  then show ?thesis by (simp add: elems_def)
qed

text \<open>
  A factory panics on a float parameter exactly when the parameter is not a number or
  not finite, and \<open>makeTriggerFn\<close> panics only when a factory does.
\<close>

lemma factory_returns:
  assumes "triggerFnFactories n = Some fac"
    and "\<And>x. p = IFloat64 x \<Longrightarrow> \<not> IsNaN x \<and> \<not> IsInf x"
  shows "\<exists>r. fac p = Inr r"
proof -
  have h: "\<exists>r. (case NewFromFloat x of Inl q \<Rightarrow> Inl q | Inr d \<Rightarrow> Inr (g d)) = Inr r"
    if "p = IFloat64 x" for x and g :: "decimal \<Rightarrow> TriggerFn option \<times> error option"
    using NewFromFloat_bound[of x] assms(2)[OF that] by auto
  from assms(1) have "fac = relativeThresholdFactory \<or> fac = absoluteThresholdFactory"
    by (auto simp: triggerFnFactories_def split: if_splits)
  then show ?thesis
    using h by (cases p) (auto simp: relativeThresholdFactory_def absoluteThresholdFactory_def)
qed

lemma makeTriggerFn_returns:
  assumes "\<And>x. n \<in> dom triggerFnFactories \<Longrightarrow> p = IFloat64 x \<Longrightarrow> \<not> IsNaN x \<and> \<not> IsInf x"
  shows "\<exists>t e. makeTriggerFn u n p = Inr (t, e)"
proof (cases "triggerFnFactories n")
  case None
  then show ?thesis by (simp add: makeTriggerFn_def)
next
  case (Some fac)
  then have "n \<in> dom triggerFnFactories" by blast
  from factory_returns[OF Some assms[OF this]] obtain r where "fac p = Inr r" by blast
  with Some show ?thesis
    by (cases r) (auto simp: makeTriggerFn_def split: option.splits prod.splits)
qed

lemma Scan_range_returns:
  assumes "\<And>n x. (n, IFloat64 x) \<in> set asMap \<Longrightarrow> n \<in> dom triggerFnFactories \<Longrightarrow>
             \<not> IsNaN x \<and> \<not> IsInf x"
  shows "\<exists>h' l'. Scan_range u grow asMap h l = Inr (h', l')"
  using assms
proof (induction asMap arbitrary: h l)
  case Nil
  then show ?case by simp
next
  case (Cons a asMap)
  obtain n p where a: "a = (n, p)" by (cases a)
  have "\<And>x. n \<in> dom triggerFnFactories \<Longrightarrow> p = IFloat64 x \<Longrightarrow> \<not> IsNaN x \<and> \<not> IsInf x"
    using Cons.prems[of n] by (simp add: a)
  from makeTriggerFn_returns[OF this] obtain t e where m: "makeTriggerFn u n p = Inr (t, e)"
    by blast
  obtain h1 l1 where ap: "append_go grow h l t = (h1, l1)" by (cases "append_go grow h l t")
  have "\<exists>h' l'. Scan_range u grow asMap h1 l1 = Inr (h', l')"
    by (rule Cons.IH) (use Cons.prems in auto)
  then show ?case by (simp add: a m ap)
qed

text \<open>
  C9 as stated fails. An object whose entry \<open>relativeThreshold\<close> holds the float
  \<open>+Inf\<close> is read as a JSON object, the factory is called with it, the conversion
  panics, and \<open>Scan\<close> does not return: there is no nil error.
\<close>

theorem Scan_panics_counterexample:
  "IsInf (Float64 False 2047 0) \<and>
   getTriggerFnMap \<lparr>json_Scan = Inr, IsObject = (\<lambda>j. True), AsMap = Inr\<rparr>
       [(''relativeThreshold'', IFloat64 (Float64 False 2047 0))]
     = Inr [(''relativeThreshold'', IFloat64 (Float64 False 2047 0))] \<and>
   Scan \<lparr>json_Scan = Inr, IsObject = (\<lambda>j. True), AsMap = Inr\<rparr>
        \<lparr>err_in_scope = None, result_at_end = (\<lambda>t. (t, None))\<rparr> (\<lambda>c. 2 * c)
        [[None, None]] \<lparr>ptr = 0, off = 0, len = 1, cap = 2\<rparr>
        [(''relativeThreshold'', IFloat64 (Float64 False 2047 0))]
     = Inl (CannotCreateDecimalFrom (Float64 False 2047 0))"
  by (simp add: IsInf_def IsNaN_def getTriggerFnMap_def Scan_def makeTriggerFn_def
      triggerFnFactories_def relativeThresholdFactory_def NewFromFloat_def)

text \<open>
  C9, as the code has it. When the input is read as a JSON object (\<open>getTriggerFnMap\<close>
  yields the map) and no entry under one of the two registered names holds a float that
  is not a number or not finite, \<open>Scan\<close> returns the nil error and the caller's collection
  holds the same elements after the call as before: the trigger functions made from the
  entries are appended to the local copy of the receiver only, which ends as the old
  elements followed by one made value for each entry, and is dropped when the method
  returns.
\<close>

theorem Scan_leaves_receiver:
  assumes "wf_slice h f" and "getTriggerFnMap J value = Inr asMap"
    and "\<forall>(name, params) \<in> set asMap. \<forall>x.
           name \<in> dom triggerFnFactories \<and> params = IFloat64 x \<longrightarrow> \<not> IsNaN x \<and> \<not> IsInf x"
  shows "\<exists>h' l' made.
           Scan_range u grow asMap h f = Inr (h', l') \<and>
           Scan J u grow h f value = Inr (h', None) \<and>
           elems h' f = elems h f \<and>
           elems h' l' = elems h f @ made \<and>
           list_all2 (\<lambda>(name, params) triggerFn.
                        \<exists>err. makeTriggerFn u name params = Inr (triggerFn, err)) asMap made"
proof -
  have "\<exists>h' l'. Scan_range u grow asMap h f = Inr (h', l')"
    by (rule Scan_range_returns) (use assms(3) in blast)
  then obtain h' l' where s: "Scan_range u grow asMap h f = Inr (h', l')"
    by blast
  from Scan_range_local[OF assms(1) s] obtain made where
    "elems h' l' = elems h f @ made"
    "list_all2 (\<lambda>(name, params) triggerFn.
        \<exists>err. makeTriggerFn u name params = Inr (triggerFn, err)) asMap made"
    by blast
  with Scan_range_caller[OF assms(1) s] s show ?thesis
    by (auto simp: Scan_def assms(2))
qed

text \<open>
  A receiver of length 1 and capacity 2 holding one nil entry, scanned with an object of
  one entry, the absolute threshold 0.5: the call writes into the spare slot of the
  shared array, and the receiver still holds its one entry.
\<close>

theorem Scan_leaves_receiver_witness:
  "wf_slice [[None, None]] \<lparr>ptr = 0, off = 0, len = 1, cap = 2\<rparr> \<and>
   getTriggerFnMap \<lparr>json_Scan = Inr, IsObject = (\<lambda>j. True), AsMap = Inr\<rparr>
       [(''absoluteThreshold'', IFloat64 (Float64 False 1022 0))]
     = Inr [(''absoluteThreshold'', IFloat64 (Float64 False 1022 0))] \<and>
   \<not> IsNaN (Float64 False 1022 0) \<and> \<not> IsInf (Float64 False 1022 0) \<and>
   (\<exists>h'. Scan \<lparr>json_Scan = Inr, IsObject = (\<lambda>j. True), AsMap = Inr\<rparr>
          \<lparr>err_in_scope = None, result_at_end = (\<lambda>t. (t, None))\<rparr> (\<lambda>c. 2 * c)
          [[None, None]] \<lparr>ptr = 0, off = 0, len = 1, cap = 2\<rparr>
          [(''absoluteThreshold'', IFloat64 (Float64 False 1022 0))] = Inr (h', None) \<and>
      elems h' \<lparr>ptr = 0, off = 0, len = 1, cap = 2\<rparr> = [None] \<and>
      h' ! 0 ! 1 \<noteq> None)"
proof -
  let ?J = "\<lparr>json_Scan = Inr, IsObject = (\<lambda>j. True), AsMap = Inr\<rparr>
              :: ((string \<times> iface) list, (string \<times> iface) list) models_JSON"
  let ?u = "\<lparr>err_in_scope = None, result_at_end = (\<lambda>t. (t, None))\<rparr>"
  let ?f = "\<lparr>ptr = 0, off = 0, len = 1, cap = 2\<rparr>"
  let ?m = "[(''absoluteThreshold'', IFloat64 (Float64 False 1022 0))]"
  have w: "wf_slice [[None, None]] ?f"
    by (simp add: wf_slice_def)
  have g: "getTriggerFnMap ?J ?m = Inr ?m"
    by (simp add: getTriggerFnMap_def)
  have n: "\<not> IsNaN (Float64 False 1022 0)" "\<not> IsInf (Float64 False 1022 0)"
    by (simp_all add: IsNaN_def IsInf_def)
  then have fin: "\<forall>(name, params) \<in> set ?m. \<forall>x.
           name \<in> dom triggerFnFactories \<and> params = IFloat64 x \<longrightarrow> \<not> IsNaN x \<and> \<not> IsInf x"
    by simp
  have e: "elems [[None, None]] ?f = [None]"
    by (simp add: elems_def)
  have c: "NewFromFloat (Float64 False 1022 0) = Inr (New 5 (- 1))"
    by code_simp
  have s: "\<exists>h'. Scan ?J ?u (\<lambda>c. 2 * c) [[None, None]] ?f ?m = Inr (h', None) \<and> h' ! 0 ! 1 \<noteq> None"
    by (simp add: Scan_def g makeTriggerFn_def triggerFnFactories_def
        absoluteThresholdFactory_def c append_go_def)
  from Scan_leaves_receiver[OF w g fin, of ?u "\<lambda>c. 2 * c"] w g n e s show ?thesis
    by auto
qed

section \<open>The search query\<close>

lemma map_of_first:
  "k \<notin> fst ` set pre \<Longrightarrow> map_of (pre @ (k, v) # post) k = Some v"
  by (induction pre) auto

text \<open>
  C10. \<open>searchQuery\<close> returns \<^verbatim>\<open>undefined\<close> when the URL has no parameter named
  \<open>search\<close>; when it has one, with \<open>v\<close> the value of its first occurrence, the result
  is \<open>v\<close> if \<open>v\<close> is not empty and \<^verbatim>\<open>undefined\<close> if \<open>v\<close> is the empty string.
\<close>

theorem searchQuery_result:
  "(''search'' \<notin> fst ` set (URL_searchParams location) \<longrightarrow>
      searchQuery URL_searchParams location = None) \<and>
   (URL_searchParams location = pre @ (''search'', v) # post \<and> ''search'' \<notin> fst ` set pre \<longrightarrow>
      searchQuery URL_searchParams location = (if v = [] then None else Some v))"
proof (intro conjI impI)
  assume "''search'' \<notin> fst ` set (URL_searchParams location)"
  then have "map_of (URL_searchParams location) ''search'' = None"
    by (simp add: map_of_eq_None_iff)
  then show "searchQuery URL_searchParams location = None"
    by (simp add: searchQuery_def get_def truthy_def)
next
  assume a: "URL_searchParams location = pre @ (''search'', v) # post \<and> ''search'' \<notin> fst ` set pre"
  then have "map_of (URL_searchParams location) ''search'' = Some v"
    using map_of_first[of "''search''" pre v post] by simp
  then show "searchQuery URL_searchParams location = (if v = [] then None else Some v)"
    by (simp add: searchQuery_def get_def truthy_def)
qed

theorem searchQuery_result_witness:
  "''search'' \<notin> fst ` set [(''page'', ''2'')] \<and>
   searchQuery (\<lambda>l. l) [(''page'', ''2'')] = None \<and>
   [(''page'', ''2''), (''search'', ''jobB''), (''search'', ''x'')] = [(''page'', ''2'')] @ (''search'', ''jobB'') # [(''search'', ''x'')] \<and>
   searchQuery (\<lambda>l. l) [(''page'', ''2''), (''search'', ''jobB''), (''search'', ''x'')] = Some ''jobB'' \<and>
   searchQuery (\<lambda>l. l) [(''search'', ''''), (''search'', ''x'')] = None"
  using searchQuery_result[of "\<lambda>l. l" "[(''page'', ''2'')]" "[]" "[]" "[]"]
    searchQuery_result[of "\<lambda>l. l" "[(''page'', ''2''), (''search'', ''jobB''), (''search'', ''x'')]"
      "[(''page'', ''2'')]" "''jobB''" "[(''search'', ''x'')]"]
    searchQuery_result[of "\<lambda>l. l" "[(''search'', ''''), (''search'', ''x'')]" "[]" "''''" "[(''search'', ''x'')]"]
  by simp

section \<open>The Run Execution Engine: createRun\<close>

lemma map_of_filter_distinct:
  "distinct (map fst xs) \<Longrightarrow> map_of xs k = Some v \<Longrightarrow> filter (\<lambda>e. fst e = k) xs = [(k, v)]"
proof (induction xs)
  case Nil
  then show ?case by simp
next
  case (Cons x xs)
  show ?case
  proof (cases "fst x = k")
    case True
    with Cons.prems have v: "x = (k, v)" by (cases x) auto
    from Cons.prems True have "k \<notin> fst ` set xs" by auto
    then have "filter (\<lambda>e. fst e = k) xs = []"
      by (auto simp: filter_empty_conv)
    with v show ?thesis by simp
  next
    case False
    with Cons show ?thesis by (cases x) auto
  qed
qed

lemma createRun_fresh:
  assumes "map_of (runs st) k = None"
  shows "map_of (runs (fst (createRun now st job p k))) k = Some (p, snd (createRun now st job p k))"
  and "runs (fst (createRun now st job p k)) = runs st @ [(k, p, snd (createRun now st job p k))]"
  using assms by (simp_all add: createRun_def Let_def map_add_def)

lemma createRun_existing:
  assumes "map_of (runs st) k = Some (p0, r)"
  shows "createRun now st job p k = (st, r)"
  using assms by (simp add: createRun_def)

lemma createRun_unique:
  "unique_keys st \<Longrightarrow> unique_keys (fst (createRun now st job p k))"
  by (auto simp: createRun_def unique_keys_def Let_def map_of_eq_None_iff split: option.splits)

lemma createRun_stored:
  "\<exists>p0. map_of (runs (fst (createRun now st job p k))) k = Some (p0, snd (createRun now st job p k))"
proof (cases "map_of (runs st) k")
  case None
  from createRun_fresh(1)[OF None] show ?thesis by blast
next
  case (Some a)
  then obtain p0 r where "map_of (runs st) k = Some (p0, r)" by (cases a) auto
  then show ?thesis by (auto simp: createRun_existing)
qed

text \<open>
  C1. In a store whose keys are unique, two calls of \<open>createRun\<close> with the same
  idempotency key (whatever the job, payload and time of the second call) leave exactly
  one Run persisted under that key: the second call returns the Run of the first and
  does not change the store, and the keys stay unique.
\<close>

theorem createRun_idempotent:
  assumes "unique_keys st"
    and "createRun now st job triggerPayload idempotencyKey = (st1, run1)"
    and "createRun now' st1 job' triggerPayload' idempotencyKey = (st2, run2)"
  shows "run2 = run1 \<and> st2 = st1 \<and> runs_with_key st2 idempotencyKey = [run1] \<and> unique_keys st2"
proof -
  from createRun_stored[of now st job triggerPayload idempotencyKey] assms(2)
  obtain p0 where m: "map_of (runs st1) idempotencyKey = Some (p0, run1)" by auto
  from createRun_existing[OF m] assms(3) have e: "run2 = run1" "st2 = st1" by simp_all
  from createRun_unique[OF assms(1), of now job triggerPayload idempotencyKey] assms(2)
  have u: "unique_keys st1" by simp
  then have "filter (\<lambda>e. fst e = idempotencyKey) (runs st1) = [(idempotencyKey, p0, run1)]"
    using m by (simp add: unique_keys_def map_of_filter_distinct)
  then have "runs_with_key st1 idempotencyKey = [run1]"
    by (simp add: runs_with_key_def)
  with e u show ?thesis by simp
qed

text \<open>
  Two deliveries of the trigger key \<open>logX:block100:idx3\<close> to an empty store: one Run.
\<close>

theorem createRun_idempotent_witness:
  "unique_keys \<lparr>runs = [], nextRunId = 0\<rparr> \<and>
   (\<exists>st1 run1. createRun 100 \<lparr>runs = [], nextRunId = 0\<rparr>
        \<lparr>jobId = 7, triggerSpec = ''runlog'', taskSpecs = [''httpget'', ''ethtx'']\<rparr>
        ''payload'' ''logX:block100:idx3'' = (st1, run1) \<and>
      createRun 105 st1
        \<lparr>jobId = 7, triggerSpec = ''runlog'', taskSpecs = [''httpget'', ''ethtx'']\<rparr>
        ''payload'' ''logX:block100:idx3'' = (st1, run1) \<and>
      runs_with_key st1 ''logX:block100:idx3'' = [run1] \<and>
      length (runs st1) = 1)"
proof -
  let ?st = "\<lparr>runs = [], nextRunId = 0\<rparr>"
  let ?job = "\<lparr>jobId = 7, triggerSpec = ''runlog'', taskSpecs = [''httpget'', ''ethtx'']\<rparr>"
  have u: "unique_keys ?st" by (simp add: unique_keys_def)
  obtain st1 run1 where c1: "createRun 100 ?st ?job ''payload'' ''logX:block100:idx3'' = (st1, run1)"
    by (cases "createRun 100 ?st ?job ''payload'' ''logX:block100:idx3''")
  obtain st2 run2 where c2: "createRun 105 st1 ?job ''payload'' ''logX:block100:idx3'' = (st2, run2)"
    by (cases "createRun 105 st1 ?job ''payload'' ''logX:block100:idx3''")
  from createRun_idempotent[OF u c1 c2]
  have e: "run2 = run1" "st2 = st1" and r: "runs_with_key st2 ''logX:block100:idx3'' = [run1]"
    by blast+
  from c1 have l: "length (runs st1) = 1" by (auto simp: createRun_def Let_def)
  from e r have r1: "runs_with_key st1 ''logX:block100:idx3'' = [run1]" by simp
  from c2 e have c2': "createRun 105 st1 ?job ''payload'' ''logX:block100:idx3'' = (st1, run1)"
    by simp
  from u c1 c2' r1 l show ?thesis by blast
qed

section \<open>The Run Execution Engine: the Head Tracker\<close>


lemma no_Reorg_confirmed_events: "filter is_Reorg (confirmed_events ths old new) = []"
  by (auto simp: confirmed_events_def filter_empty_conv)

lemma prune_Cons: "prune d (x # xs) = x # take d xs"
  by (simp add: prune_def)

text \<open>
  C3. The tracker holds \<open>H3, H2, H1\<close> (newest first, possibly with older heads below
  \<open>H1\<close>) and receives \<open>H2'\<close>, whose parent is \<open>H1\<close>, and then \<open>H3'\<close>, whose parent
  is \<open>H2'\<close>. Both calls of \<open>onNewHead\<close> return, and the events of the two calls hold
  exactly one \<open>Reorg\<close>: its common ancestor is \<open>H1\<close> and its discarded hashes are
  those of \<open>H2\<close> and \<open>H3\<close>.
\<close>

theorem reorg_scenario:
  assumes v: "view tr = H3 # H2 # H1 # older"
    and d: "hash H2 \<noteq> hash H1" "hash H3 \<noteq> hash H1"
    and p2: "parentHash H2' = hash H1"
    and p3: "parentHash H3' = hash H2'"
  shows "\<exists>tr1 ev1 tr2 ev2.
           onNewHead getHeadByHash tr H2' = Some (tr1, ev1) \<and>
           onNewHead getHeadByHash tr1 H3' = Some (tr2, ev2) \<and>
           filter is_Reorg (ev1 @ ev2) = [Reorg (hash H1) [hash H3, hash H2] [hash H2']] \<and>
           set [hash H3, hash H2] = {hash H2, hash H3}"
proof -
  let ?new1 = "prune (maxDepth tr) (H2' # H1 # older)"
  let ?ev1 = "Reorg (hash H1) [hash H3, hash H2] [hash H2']
                # confirmed_events (thresholds tr) (view tr) ?new1"
  have w: "walk_back getHeadByHash (H3 # H2 # H1 # older) [H2'] H2' = Some (Branch [H2'])"
    by (subst walk_back.simps) (simp add: p2)
  have tw: "takeWhile (\<lambda>x. hash x \<noteq> hash H1) (H3 # H2 # H1 # older) = [H3, H2]"
    and dw: "dropWhile (\<lambda>x. hash x \<noteq> hash H1) (H3 # H2 # H1 # older) = H1 # older"
    using d by simp_all
  have s1: "onNewHead getHeadByHash tr H2' = Some (tr\<lparr>view := ?new1\<rparr>, ?ev1)"
    using d by (simp add: onNewHead_def v w p2 tw dw Let_def)
  have top1: "?new1 = H2' # take (maxDepth tr) (H1 # older)" by (simp add: prune_Cons)
  let ?tr1 = "tr\<lparr>view := ?new1\<rparr>"
  let ?new2 = "prune (maxDepth ?tr1) (H3' # view ?tr1)"
  let ?ev2 = "confirmed_events (thresholds ?tr1) (view ?tr1) ?new2"
  have s2: "onNewHead getHeadByHash ?tr1 H3' = Some (?tr1\<lparr>view := ?new2\<rparr>, ?ev2)"
    by (simp add: onNewHead_def top1 p3 Let_def)
  have f: "filter is_Reorg (?ev1 @ ?ev2) = [Reorg (hash H1) [hash H3, hash H2] [hash H2']]"
    by (simp add: no_Reorg_confirmed_events)
  have st: "set [hash H3, hash H2] = {hash H2, hash H3}" by auto
  from s1 s2 f st show ?thesis by (intro exI conjI)
qed

text \<open>
  Heads 10, 11, 12 held; the competing heads 11' (on 10) and 12' (on 11') arrive.
\<close>

theorem reorg_scenario_witness:
  "\<exists>tr1 ev1 tr2 ev2.
      onNewHead (\<lambda>h. None) (tracker0\<lparr>view := [head12, head11, head10]\<rparr>) head11'
        = Some (tr1, ev1) \<and>
      onNewHead (\<lambda>h. None) tr1 head12' = Some (tr2, ev2) \<and>
      filter is_Reorg (ev1 @ ev2) = [Reorg 10 [12, 11] [21]]"
proof -
  have v: "view (tracker0\<lparr>view := [head12, head11, head10]\<rparr>) = head12 # head11 # head10 # []"
    by simp
  have d: "hash head11 \<noteq> hash head10" "hash head12 \<noteq> hash head10"
    and p2: "parentHash head11' = hash head10" and p3: "parentHash head12' = hash head11'"
    by (simp_all add: head10_def head11_def head12_def head11'_def head12'_def)
  have h: "hash head10 = 10" "hash head11 = 11" "hash head12 = 12" "hash head11' = 21"
    by (simp_all add: head10_def head11_def head12_def head11'_def head12'_def)
  from reorg_scenario[OF v d p2 p3, of "\<lambda>h. None"] show ?thesis
    unfolding h by blast
qed















section \<open>The Run Execution Engine: confirmation\<close>





















end
